theory Spec2Isabelle
  imports Complex_Main
begin

section \<open>The page effects of js/animations.js\<close>

text \<open>
  The script drives the page through jQuery and the video element. A call that changes
  the page is recorded as an \<open>effect\<close>; a function of the script is modelled by the
  list of effects it issues, in order. The first revision held in
  \<^verbatim>\<open>src/js/animations.js\<close> (lines 1 to 84) is the program; the older revision that
  follows it in the same file differs only in the video part and is modelled beside it
  under the suffix \<open>_old\<close>.
\<close>

type_synonym element = nat

datatype speed = Slow | Fast | Millis nat

datatype promise_state = Fulfilled | Rejected

text \<open>What \<^verbatim>\<open>videoElement.play()\<close> returns: a promise, or \<^verbatim>\<open>undefined\<close> in browsers
  that predate the promise-returning form.\<close>

datatype js_value = Undefined | Promise promise_state

datatype js_error = TypeError

datatype effect =
    FadeTo string speed real
  | Hide string
  | Animate string "(string \<times> string) list" nat "string option" "bool option"
  | SetMuted element bool
  | SetAttribute element string string
  | Play element
  | Pause element
  | UnhandledRejection

subsection \<open>Width thresholds\<close>

text \<open>The two top-level variables of the script (lines 1 to 5).\<close>

record globals =
  imageDeviceWidth :: int
  textFaderDeviceWidth :: int

definition script_globals :: globals where
  "script_globals = \<lparr>imageDeviceWidth = 478, textFaderDeviceWidth = 768\<rparr>"

text \<open>Lines 9 to 17; \<open>w\<close> is the value of \<^verbatim>\<open>$(window).width()\<close>.\<close>

definition showImageIfAppropriate :: "globals \<Rightarrow> int \<Rightarrow> effect list" where
  "showImageIfAppropriate g w =
     (if w \<le> textFaderDeviceWidth g
      then [FadeTo ''.picture img'' Slow 1]
      else [Hide ''.picture img''])"

text \<open>Lines 20 to 31.\<close>

definition resizeTextIfAppropriate :: "globals \<Rightarrow> int \<Rightarrow> effect list" where
  "resizeTextIfAppropriate g w =
     (if w < imageDeviceWidth g
      then [Animate ''#textFader h1''
              [(''fontSize'', ''80px''), (''margin'', ''0px 10px'')] 500 None (Some False)]
      else [Animate ''#textFader h1''
              [(''fontSize'', ''140px'')] 500 None (Some False)])"

text \<open>Lines 34 to 40 (document ready) and 42 to 45 (window resize).\<close>

definition on_ready :: "globals \<Rightarrow> int \<Rightarrow> effect list" where
  "on_ready g w =
     [FadeTo ''#headline, #socialMedia'' Slow 0.2,
      FadeTo ''#headline, #socialMedia'' Slow 1]
     @ showImageIfAppropriate g w @ resizeTextIfAppropriate g w"

definition on_resize :: "globals \<Rightarrow> int \<Rightarrow> effect list" where
  "on_resize g w = showImageIfAppropriate g w @ resizeTextIfAppropriate g w"

subsection \<open>Background video\<close>

text \<open>
  A run of a piece of script yields the effects issued so far and the exception that
  stopped it, if one was thrown. A method call or property write on \<^verbatim>\<open>null\<close>
  throws a \<open>TypeError\<close>.
\<close>

type_synonym outcome = "effect list \<times> js_error option"

definition done_ok :: outcome where
  "done_ok = ([], None)"

definition and_then :: "outcome \<Rightarrow> outcome \<Rightarrow> outcome" where
  "and_then a b = (case snd a of Some e \<Rightarrow> a | None \<Rightarrow> (fst a @ fst b, snd b))"

definition on_element :: "element option \<Rightarrow> (element \<Rightarrow> effect) \<Rightarrow> outcome" where
  "on_element v f = (case v of None \<Rightarrow> ([], Some TypeError) | Some e \<Rightarrow> ([f e], None))"

text \<open>
  The page as the script meets it: whether the document is hidden, what a lookup of
  \<^verbatim>\<open>videoBackgroundContainer\<close> finds, and what \<^verbatim>\<open>play()\<close> returns.
\<close>

record page =
  hidden :: bool
  container :: "element option"
  play_returns :: js_value

fun truthy :: "js_value \<Rightarrow> bool" where
  "truthy Undefined = False"
| "truthy (Promise _) = True"

text \<open>The \<^verbatim>\<open>catch\<close> property, read only from a truthy value.\<close>

fun has_catch :: "js_value \<Rightarrow> bool" where
  "has_catch Undefined = False"
| "has_catch (Promise _) = True"

text \<open>A rejected promise with no rejection handler is reported by the browser.\<close>

fun settle :: "js_value \<Rightarrow> bool \<Rightarrow> effect list" where
  "settle (Promise Rejected) handled = (if handled then [] else [UnhandledRejection])"
| "settle _ _ = []"

text \<open>
  \<^verbatim>\<open>$('#videoBackgroundContainer').animate({volume: v}, 1000, 'linear', cb)\<close>: the
  selection is looked up when the call is made; an empty selection animates nothing and
  never runs the completion callback \<open>cb\<close>.
\<close>

definition animate_volume :: "page \<Rightarrow> string \<Rightarrow> outcome \<Rightarrow> outcome" where
  "animate_volume p v cb =
     (case container p of
        None \<Rightarrow> done_ok
      | Some _ \<Rightarrow>
          and_then
            ([Animate ''#videoBackgroundContainer'' [(''volume'', v)] 1000
                (Some ''linear'') None], None)
            cb)"

text \<open>Line 48.\<close>

definition get_videoElement :: "page \<Rightarrow> element option" where
  "get_videoElement p = container p"

text \<open>Lines 50 to 62, with \<open>v\<close> the value of \<^verbatim>\<open>videoElement\<close>.\<close>

definition init_video :: "page \<Rightarrow> element option \<Rightarrow> outcome" where
  "init_video p v =
     (if v \<noteq> None then
        and_then (on_element v (\<lambda>e. SetMuted e True))
       (and_then (on_element v (\<lambda>e. SetAttribute e ''muted'' ''''))
       (and_then (on_element v (\<lambda>e. SetAttribute e ''playsinline'' ''''))
       (and_then (on_element v Play)
          (let initialPlay = play_returns p in
           (settle initialPlay (truthy initialPlay \<and> has_catch initialPlay), None)))))
      else done_ok)"

text \<open>Lines 64 to 84: the listener, with \<open>v\<close> the captured \<^verbatim>\<open>videoElement\<close>.\<close>

definition visibilitychange_handler :: "page \<Rightarrow> element option \<Rightarrow> outcome" where
  "visibilitychange_handler p v =
     (if v = None then done_ok
      else if hidden p then
        animate_volume p ''0'' (on_element v Pause)
      else
        and_then (on_element v Play)
       (and_then
          (let resumePlay = play_returns p in
           (settle resumePlay (truthy resumePlay \<and> has_catch resumePlay), None))
          (animate_volume p ''1'' done_ok)))"

text \<open>The older revision (second part of the file): no guard, no rejection handler.\<close>

definition visibilitychange_handler_old :: "page \<Rightarrow> element option \<Rightarrow> outcome" where
  "visibilitychange_handler_old p v =
     (if hidden p then
        animate_volume p ''0'' (on_element v Pause)
      else
        and_then (on_element v Play)
       (and_then (settle (play_returns p) False, None)
          (animate_volume p ''1'' done_ok)))"

text \<open>Loading the script: line 48, then lines 50 to 62.\<close>

definition load_script :: "page \<Rightarrow> element option \<times> outcome" where
  "load_script p = (let v = get_videoElement p in (v, init_video p v))"

section \<open>The collection fetcher\<close>

text \<open>
  The fetch, render and write pipeline (\<^verbatim>\<open>scripts/sync_discogs_collection.py\<close> and
  the scheduled function under \<^verbatim>\<open>aws/lambda/\<close>, both named by the README files) is
  not among the sources. The fetcher is written down here from section 4.1 of the
  specification, so that the properties section 8 states of it can be compared with the
  procedure section 4.1 describes.
\<close>

datatype run_error = ConfigurationError | FetchError | RenderError | WriteError

text \<open>Modelled from the spec: a Page of section 3, a batch of item records with the
  current page number and the total number of pages (the fetcher's source is missing).\<close>

record 'r api_page =
  records :: "'r list"
  current_page :: nat
  total_pages :: nat

text \<open>Modelled from the spec: the remote API as the fetcher sees it, the answer to a
  request for page \<open>n\<close>; \<open>None\<close> is a failed request (network error or non-success
  status).\<close>

type_synonym 'r api = "nat \<Rightarrow> 'r api_page option"

text \<open>Modelled from the spec: the fetcher's loop over the pages after the first (its
  source is missing). \<open>k\<close> pages remain, \<open>n\<close> is the next page, \<open>acc\<close> the records
  accumulated and \<open>reqs\<close> the requests issued so far. A failed request aborts the fetch
  with \<open>FetchError\<close>; nothing is retried.\<close>

fun fetch_rest ::
  "'r api \<Rightarrow> nat \<Rightarrow> nat \<Rightarrow> 'r list \<Rightarrow> nat list \<Rightarrow> (run_error + 'r list) \<times> nat list" where
  "fetch_rest api 0 n acc reqs = (Inr acc, reqs)"
| "fetch_rest api (Suc k) n acc reqs =
     (case api n of
        None \<Rightarrow> (Inl FetchError, reqs @ [n])
      | Some pg \<Rightarrow> fetch_rest api k (Suc n) (acc @ records pg) (reqs @ [n]))"

text \<open>Modelled from the spec: the Collection Fetcher of section 4.1 (its source is
  missing): pages are retrieved in sequence from page 1, and the total-page count of the
  first page's metadata says when to stop. The result is the list of records or the
  error, together with the page numbers requested, in order.\<close>

definition fetch_collection :: "'r api \<Rightarrow> (run_error + 'r list) \<times> nat list" where
  "fetch_collection api =
     (case api 1 of
        None \<Rightarrow> (Inl FetchError, [1])
      | Some first \<Rightarrow> fetch_rest api (total_pages first - 1) 2 (records first) [1])"

text \<open>Modelled from the spec: a paginated input, the sequence of pages the API holds;
  page \<open>n\<close> is the \<open>n\<close>-th of the sequence and a request outside it fails.\<close>

definition serve :: "'r api_page list \<Rightarrow> 'r api" where
  "serve ps n = (if 1 \<le> n \<and> n \<le> length ps then Some (ps ! (n - 1)) else None)"

text \<open>Modelled from the spec: a valid paginated input has at least one page, numbers its
  pages from 1 and reports on every page how many pages there are.\<close>

definition valid_pages :: "'r api_page list \<Rightarrow> bool" where
  "valid_pages ps =
     (ps \<noteq> [] \<and> map current_page ps = [1..<Suc (length ps)]
      \<and> list_all (\<lambda>p. total_pages p = length ps) ps)"

text \<open>The example of section 8: page 1 of 2 with 50 records, page 2 of 2 with 12.\<close>

definition two_pages :: "nat api_page list" where
  "two_pages =
     [\<lparr>records = [0..<50], current_page = 1, total_pages = 2\<rparr>,
      \<lparr>records = [50..<62], current_page = 2, total_pages = 2\<rparr>]"

text \<open>An API that answers a request for any page, and calls every page the only one.\<close>

definition generous_api :: "nat api" where
  "generous_api n =
     Some \<lparr>records = [10 * n, 10 * n + 1], current_page = n, total_pages = 1\<rparr>"

section \<open>Properties of the page effects\<close>

lemma and_then_ok [simp]: "and_then (xs, None) b = (xs @ fst b, snd b)"
  by (simp add: and_then_def)

lemma and_then_raised [simp]: "and_then (xs, Some e) b = (xs, Some e)"
  by (simp add: and_then_def)

lemma on_element_Some [simp]: "on_element (Some e) f = ([f e], None)"
  by (simp add: on_element_def)

lemma on_element_None [simp]: "on_element None f = ([], Some TypeError)"
  by (simp add: on_element_def)

lemma settle_handled [simp]: "settle r True = []"
proof (cases r)
  case Undefined
  then show ?thesis by simp
next
  case (Promise s)
  then show ?thesis by (cases s) simp_all
qed

lemma truthy_has_catch: "(truthy r \<and> has_catch r) = (r \<noteq> Undefined)"
  by (cases r) simp_all

lemma settle_guarded [simp]: "settle r (truthy r \<and> has_catch r) = []"
  by (cases r) simp_all

lemma animate_volume_present:
  "container p = Some c \<Longrightarrow>
   animate_volume p s cb =
     (Animate ''#videoBackgroundContainer'' [(''volume'', s)] 1000 (Some ''linear'') None
        # fst cb, snd cb)"
  by (simp add: animate_volume_def)

lemma animate_volume_absent: "container p = None \<Longrightarrow> animate_volume p s cb = done_ok"
  by (simp add: animate_volume_def)

lemma animate_volume_no_error:
  "snd cb = None \<Longrightarrow> snd (animate_volume p s cb) = None"
  by (cases cb) (simp add: animate_volume_def done_ok_def split: option.splits)

lemma animate_volume_no_rejection:
  "UnhandledRejection \<notin> set (fst cb) \<Longrightarrow>
   UnhandledRejection \<notin> set (fst (animate_volume p s cb))"
  by (cases cb, cases "snd cb")
     (auto simp: animate_volume_def done_ok_def split: option.splits)

lemma init_video_absent: "init_video p None = done_ok"
  by (simp add: init_video_def)

lemma init_video_present:
  "init_video p (Some e) =
     ([SetMuted e True, SetAttribute e ''muted'' [],
       SetAttribute e ''playsinline'' [], Play e], None)"
  by (simp add: init_video_def)

lemma handler_absent: "visibilitychange_handler p None = done_ok"
  by (simp add: visibilitychange_handler_def)

lemma handler_no_error: "snd (visibilitychange_handler p v) = None"
proof (cases v)
  case None
  then show ?thesis by (simp add: handler_absent done_ok_def)
next
  case (Some e)
  show ?thesis
  proof (cases "hidden p")
    case True
    with Some show ?thesis
      by (simp add: visibilitychange_handler_def animate_volume_no_error)
  next
    case False
    with Some show ?thesis
      by (simp add: visibilitychange_handler_def animate_volume_no_error done_ok_def)
  qed
qed

lemma handler_no_rejection:
  "UnhandledRejection \<notin> set (fst (visibilitychange_handler p v))"
proof (cases v)
  case None
  then show ?thesis by (simp add: handler_absent done_ok_def)
next
  case (Some e)
  show ?thesis
  proof (cases "hidden p")
    case True
    with Some show ?thesis
      by (simp add: visibilitychange_handler_def animate_volume_no_rejection)
  next
    case False
    with Some show ?thesis
      by (simp add: visibilitychange_handler_def animate_volume_no_rejection done_ok_def)
  qed
qed


lemma handler_old_raises:
  "visibilitychange_handler_old \<lparr>hidden = False, container = None, play_returns = r\<rparr> None
     = ([], Some TypeError)"
  by (simp add: visibilitychange_handler_old_def)

subsection \<open>The image threshold\<close>

text \<open>
  Claim C9. For every window width \<open>w\<close>, \<open>showImageIfAppropriate\<close> fades
  \<^verbatim>\<open>'.picture img'\<close> to opacity 1 exactly when \<open>w \<le> 768\<close> (the value of
  \<open>textFaderDeviceWidth\<close>) and hides it exactly when \<open>w > 768\<close>. The variable
  \<open>imageDeviceWidth\<close>, whose comment names \<^verbatim>\<open>'.picture img'\<close>, is not read: whatever
  value \<open>v\<close> it holds, the function issues the same effects.
\<close>

theorem showImageIfAppropriate_threshold:
  "(showImageIfAppropriate (script_globals\<lparr>imageDeviceWidth := v\<rparr>) w
      = [FadeTo ''.picture img'' Slow 1]) = (w \<le> 768)
   \<and> (showImageIfAppropriate (script_globals\<lparr>imageDeviceWidth := v\<rparr>) w
      = [Hide ''.picture img'']) = (w > 768)
   \<and> showImageIfAppropriate (script_globals\<lparr>imageDeviceWidth := v\<rparr>) w
      = showImageIfAppropriate script_globals w
   \<and> textFaderDeviceWidth script_globals = 768
   \<and> imageDeviceWidth script_globals = 478"
  by (simp add: showImageIfAppropriate_def script_globals_def)

theorem showImageIfAppropriate_threshold_witness:
  "showImageIfAppropriate script_globals 768 = [FadeTo ''.picture img'' Slow 1]
   \<and> showImageIfAppropriate script_globals 769 = [Hide ''.picture img'']
   \<and> showImageIfAppropriate script_globals 478 = [FadeTo ''.picture img'' Slow 1]
   \<and> showImageIfAppropriate script_globals 479 = [FadeTo ''.picture img'' Slow 1]"
  using showImageIfAppropriate_threshold [of 478 768]
        showImageIfAppropriate_threshold [of 478 769]
        showImageIfAppropriate_threshold [of 478 478]
        showImageIfAppropriate_threshold [of 478 479]
  by (simp add: script_globals_def)

subsection \<open>The video guard\<close>

text \<open>
  Claim C10. If the document holds no element with id \<^verbatim>\<open>videoBackgroundContainer\<close>
  when the script loads (so \<^verbatim>\<open>videoElement\<close> is \<^verbatim>\<open>null\<close>), loading issues no effect
  and the \<^verbatim>\<open>visibilitychange\<close> listener, on any later page \<open>q\<close>, returns at once: it
  plays, pauses and animates nothing. For every page and every value of
  \<^verbatim>\<open>videoElement\<close> the listener and the load throw no \<open>TypeError\<close> (no \<^verbatim>\<open>null\<close> is
  dereferenced); the first \<^verbatim>\<open>play()\<close> is issued exactly when the element exists; and a
  rejected \<^verbatim>\<open>play()\<close> promise is never left unhandled.
\<close>

theorem video_guard:
  "(container p = None \<longrightarrow>
      load_script p = (None, ([], None))
      \<and> visibilitychange_handler q (fst (load_script p)) = ([], None))
   \<and> snd (visibilitychange_handler q v) = None
   \<and> UnhandledRejection \<notin> set (fst (visibilitychange_handler q v))
   \<and> (Play e \<in> set (fst (snd (load_script p)))) = (container p = Some e)
   \<and> snd (snd (load_script p)) = None
   \<and> UnhandledRejection \<notin> set (fst (snd (load_script p)))"
proof -
  have absent: "container p = None \<longrightarrow>
      load_script p = (None, ([], None))
      \<and> visibilitychange_handler q (fst (load_script p)) = ([], None)"
    by (simp add: load_script_def get_videoElement_def init_video_absent handler_absent
        done_ok_def)
  have load: "(Play e \<in> set (fst (snd (load_script p)))) = (container p = Some e)
      \<and> snd (snd (load_script p)) = None
      \<and> UnhandledRejection \<notin> set (fst (snd (load_script p)))"
  proof (cases "container p")
    case None
    then show ?thesis
      by (simp add: load_script_def get_videoElement_def init_video_absent done_ok_def)
  next
    case (Some c)
    then show ?thesis
      by (auto simp: load_script_def get_videoElement_def init_video_present)
  qed
  from absent load handler_no_error [of q v] handler_no_rejection [of q v]
  show ?thesis by blast
qed

theorem video_guard_witness:
  "container \<lparr>hidden = True, container = None, play_returns = Promise Rejected\<rparr> = None
   \<and> load_script \<lparr>hidden = True, container = None, play_returns = Promise Rejected\<rparr>
       = (None, ([], None))
   \<and> visibilitychange_handler
        \<lparr>hidden = False, container = Some 7, play_returns = Promise Rejected\<rparr>
        (fst (load_script \<lparr>hidden = True, container = None, play_returns = Promise Rejected\<rparr>))
       = ([], None)"
proof -
  have absent:
    "container \<lparr>hidden = True, container = None, play_returns = Promise Rejected\<rparr> = None"
    by simp
  from video_guard [of "\<lparr>hidden = True, container = None, play_returns = Promise Rejected\<rparr>"
      "\<lparr>hidden = False, container = Some 7, play_returns = Promise Rejected\<rparr>" None 0]
    absent
  show ?thesis by blast
qed

section \<open>Properties of the fetcher\<close>

lemma fetch_rest_serve:
  "1 \<le> n \<Longrightarrow> n + k = Suc (length ps) \<Longrightarrow>
   fetch_rest (serve ps) k n acc reqs
     = (Inr (acc @ concat (map records (drop (n - 1) ps))), reqs @ [n..<Suc (length ps)])"
proof (induction k arbitrary: n acc reqs)
  case 0
  then show ?case by simp
next
  case (Suc k)
  from Suc.prems have lt: "n - 1 < length ps" and le: "n \<le> length ps" by arith+
  from Suc.prems le have srv: "serve ps n = Some (ps ! (n - 1))"
    by (simp add: serve_def)
  from lt have dr: "drop (n - 1) ps = ps ! (n - 1) # drop (Suc (n - 1)) ps"
    by (simp add: Cons_nth_drop_Suc)
  from Suc.prems have sn: "Suc (n - 1) = n" by arith
  from le have up: "[n..<Suc (length ps)] = n # [Suc n..<Suc (length ps)]"
    by (intro upt_conv_Cons) simp
  from Suc.prems have "fetch_rest (serve ps) k (Suc n) (acc @ records (ps ! (n - 1))) (reqs @ [n])
     = (Inr ((acc @ records (ps ! (n - 1))) @ concat (map records (drop (Suc n - 1) ps))),
        (reqs @ [n]) @ [Suc n..<Suc (length ps)])"
    by (intro Suc.IH) simp_all
  with srv dr sn up show ?case by simp
qed

lemma valid_pages_first:
  "valid_pages ps \<Longrightarrow> ps \<noteq> [] \<and> total_pages (hd ps) = length ps"
  by (cases ps) (simp_all add: valid_pages_def)

lemma fetch_collection_serve:
  assumes "ps \<noteq> []" "total_pages (hd ps) = length ps"
  shows "fetch_collection (serve ps)
     = (Inr (concat (map records ps)), [1..<Suc (length ps)])"
proof -
  from assms obtain p qs where ps: "ps = p # qs" by (cases ps) auto
  with assms have tp: "total_pages p - 1 = length qs" by simp
  have s1: "serve ps 1 = Some p" by (simp add: serve_def ps)
  have rest: "fetch_rest (serve ps) (length qs) 2 (records p) [1]
     = (Inr (records p @ concat (map records (drop (2 - 1) ps))),
        [1] @ [2..<Suc (length ps)])"
    by (rule fetch_rest_serve) (simp_all add: ps)
  have "[1..<Suc (length ps)] = 1 # [Suc 1..<Suc (length ps)]"
    by (intro upt_conv_Cons) (simp add: ps)
  then have up: "[1] @ [2..<Suc (length ps)] = [1..<Suc (length ps)]"
    by (simp add: numeral_2_eq_2)
  have "fetch_collection (serve ps) = fetch_rest (serve ps) (length qs) 2 (records p) [1]"
    using s1 tp by (simp add: fetch_collection_def)
  also have "\<dots> = (Inr (concat (map records ps)), [1..<Suc (length ps)])"
    unfolding rest up by (simp add: ps)
  finally show ?thesis .
qed

lemma fetch_rest_all_ok:
  "(\<forall>m. n \<le> m \<and> m < n + k \<longrightarrow> api m \<noteq> None) \<Longrightarrow>
   snd (fetch_rest api k n acc reqs) = reqs @ [n..<n + k]"
proof (induction k arbitrary: n acc reqs)
  case 0
  then show ?case by simp
next
  case (Suc k)
  from Suc.prems obtain pg where pg: "api n = Some pg" by force
  from Suc.prems have "\<forall>m. Suc n \<le> m \<and> m < Suc n + k \<longrightarrow> api m \<noteq> None" by simp
  then have "snd (fetch_rest api k (Suc n) (acc @ records pg) (reqs @ [n]))
      = (reqs @ [n]) @ [Suc n..<Suc n + k]"
    by (rule Suc.IH)
  moreover have "[n..<n + Suc k] = n # [Suc n..<Suc n + k]"
    by (simp add: upt_conv_Cons)
  ultimately show ?case using pg by simp
qed

lemma fetch_rest_sequential:
  "\<exists>j\<le>k. snd (fetch_rest api k n acc reqs) = reqs @ [n..<n + j]"
proof (induction k arbitrary: n acc reqs)
  case 0
  then show ?case by simp
next
  case (Suc k)
  show ?case
  proof (cases "api n")
    case None
    then have "snd (fetch_rest api (Suc k) n acc reqs) = reqs @ [n..<n + 1]" by simp
    then show ?thesis by (intro exI [of _ 1]) simp
  next
    case (Some pg)
    from Suc.IH [of "Suc n" "acc @ records pg" "reqs @ [n]"]
    obtain j where j: "j \<le> k"
      "snd (fetch_rest api k (Suc n) (acc @ records pg) (reqs @ [n]))
         = (reqs @ [n]) @ [Suc n..<Suc n + j]"
      by blast
    have "[n..<n + Suc j] = n # [Suc n..<Suc n + j]"
      by (simp add: upt_conv_Cons)
    with j Some have "snd (fetch_rest api (Suc k) n acc reqs) = reqs @ [n..<n + Suc j]"
      by simp
    with j(1) show ?thesis by (intro exI [of _ "Suc j"]) simp
  qed
qed

lemma two_pages_valid: "valid_pages two_pages"
  by (simp add: valid_pages_def two_pages_def upt_conv_Cons)

lemma two_pages_records: "concat (map records two_pages) = [0..<62]"
  by (simp add: two_pages_def) code_simp

subsection \<open>Concatenation in API order\<close>

text \<open>
  Claim C1. For every valid paginated input, the fetcher returns exactly the
  concatenation of the pages' record lists, in the order of the pages and, within a
  page, in the page's order; so the number of items returned is the sum of the per-page
  counts, and nothing is sorted.
\<close>

theorem fetch_concat:
  "valid_pages ps \<Longrightarrow>
   fst (fetch_collection (serve ps)) = Inr (concat (map records ps))
   \<and> length (concat (map records ps)) = sum_list (map (\<lambda>p. length (records p)) ps)"
  using fetch_collection_serve [of ps] valid_pages_first [of ps]
  by (simp add: length_concat comp_def)

theorem fetch_concat_witness:
  "valid_pages two_pages
   \<and> fst (fetch_collection (serve two_pages)) = Inr [0..<62]
   \<and> length [0..<62::nat] = 50 + 12"
proof -
  from fetch_concat [OF two_pages_valid]
  have "fst (fetch_collection (serve two_pages)) = Inr (concat (map records two_pages))"
    by (rule conjunct1)
  with two_pages_valid two_pages_records show ?thesis by simp
qed

subsection \<open>Stopping by the first page's count\<close>

text \<open>
  Claim C6. When the first page reports a total-page count of 1, the fetcher returns
  exactly that page's records and requests page 1 only. In general the requests are
  pages 1, 2, ... in sequence, never beyond the first page's total-page count (page 1
  itself is always requested), and they reach that count when no request fails.
\<close>

theorem fetch_stops_by_first_page:
  "api 1 = Some first \<Longrightarrow>
   (total_pages first = 1 \<longrightarrow> fetch_collection api = (Inr (records first), [1]))
   \<and> (\<exists>j. 1 \<le> j \<and> j \<le> max 1 (total_pages first)
          \<and> snd (fetch_collection api) = [1..<Suc j])
   \<and> ((\<forall>m. 2 \<le> m \<and> m \<le> total_pages first \<longrightarrow> api m \<noteq> None) \<longrightarrow>
        snd (fetch_collection api) = [1..<Suc (max 1 (total_pages first))])"
proof (intro conjI impI)
  assume first: "api 1 = Some first"
  then have fc: "fetch_collection api
      = fetch_rest api (total_pages first - 1) 2 (records first) [1]"
    by (simp add: fetch_collection_def)
  { assume "total_pages first = 1"
    with fc show "fetch_collection api = (Inr (records first), [1])" by simp }
  have cons: "[1] @ [2..<2 + j] = [1..<Suc (Suc j)]" for j :: nat
  proof -
    have "[1..<Suc (Suc j)] = 1 # [Suc 1..<Suc (Suc j)]"
      by (intro upt_conv_Cons) simp
    then show ?thesis by (simp add: numeral_2_eq_2)
  qed
  { from fetch_rest_sequential [of "total_pages first - 1" api 2 "records first" "[1]"]
    obtain j where j: "j \<le> total_pages first - 1"
      "snd (fetch_collection api) = [1] @ [2..<2 + j]"
      unfolding fc by blast
    from j(2) have "snd (fetch_collection api) = [1..<Suc (Suc j)]"
      by (simp only: cons)
    moreover from j(1) have "Suc j \<le> max 1 (total_pages first)" by arith
    ultimately show "\<exists>j. 1 \<le> j \<and> j \<le> max 1 (total_pages first)
          \<and> snd (fetch_collection api) = [1..<Suc j]"
      by (intro exI [of _ "Suc j"]) simp }
  { assume ok: "\<forall>m. 2 \<le> m \<and> m \<le> total_pages first \<longrightarrow> api m \<noteq> None"
    have "api m \<noteq> None" if "2 \<le> m \<and> m < 2 + (total_pages first - 1)" for m
    proof -
      from that have "2 \<le> m \<and> m \<le> total_pages first" by arith
      with ok show ?thesis by blast
    qed
    then have "\<forall>m. 2 \<le> m \<and> m < 2 + (total_pages first - 1) \<longrightarrow> api m \<noteq> None"
      by blast
    then have "snd (fetch_rest api (total_pages first - 1) 2 (records first) [1])
        = [1] @ [2..<2 + (total_pages first - 1)]"
      by (rule fetch_rest_all_ok)
    then have "snd (fetch_collection api) = [1..<Suc (Suc (total_pages first - 1))]"
      unfolding fc by (simp only: cons)
    moreover have "Suc (total_pages first - 1) = max 1 (total_pages first)" by arith
    ultimately show "snd (fetch_collection api) = [1..<Suc (max 1 (total_pages first))]"
      by (simp only:) }
qed

theorem fetch_stops_by_first_page_witness:
  "generous_api 1 = Some \<lparr>records = [10, 11], current_page = 1, total_pages = 1\<rparr>
   \<and> generous_api 2 \<noteq> None
   \<and> fetch_collection generous_api = (Inr [10, 11], [1])"
proof -
  have first: "generous_api 1 = Some \<lparr>records = [10, 11], current_page = 1, total_pages = 1\<rparr>"
    by (simp add: generous_api_def)
  from fetch_stops_by_first_page [of generous_api
      "\<lparr>records = [10, 11], current_page = 1, total_pages = 1\<rparr>"] first
  have "fetch_collection generous_api = (Inr [10, 11], [1])" by simp
  with first show ?thesis by (simp add: generous_api_def)
qed

end
